theory Spec2Isabelle
  imports Complex_Main
begin

unbundle bit_operations_syntax

section \<open>Two-dimensional arrays of the numeric library\<close>

text \<open>
  The notebook \<^verbatim>\<open>game_of_life_simulator.ipynb\<close> works on NumPy arrays. An array is
  modelled by its element type (dtype) and its rows. Three dtypes occur: booleans,
  Python/NumPy integers, and float64. A float64 entry is modelled by the real number it
  denotes; every float the step computes from a 0/1 grid is an integer between 0 and 9,
  which float64 represents exactly. (Integer entries beyond \<open>2\<^sup>5\<^sup>3\<close> in magnitude would be
  rounded by the cast to float64, which the model does not follow; the statements below
  about cell values are made for 0/1 grids.)
\<close>

datatype py_error = TypeError | ValueError | UnboundLocalError

datatype ndarray =
    BoolArr "bool list list"
  | IntArr "int list list"
  | FloatArr "real list list"

datatype dtype = np_bool | np_int | np_float64

fun dtype_of :: "ndarray \<Rightarrow> dtype" where
  "dtype_of (BoolArr _) = np_bool"
| "dtype_of (IntArr _) = np_int"
| "dtype_of (FloatArr _) = np_float64"

definition nrows :: "'a list list \<Rightarrow> nat" where
  "nrows A = length A"

definition ncols :: "'a list list \<Rightarrow> nat" where
  "ncols A = (case A of [] \<Rightarrow> 0 | r # _ \<Rightarrow> length r)"

text \<open>A list of rows is a 2-D array when all rows have the same length.\<close>

definition is_2d :: "'a list list \<Rightarrow> bool" where
  "is_2d A = list_all (\<lambda>r. length r = ncols A) A"

fun shape :: "ndarray \<Rightarrow> nat \<times> nat" where
  "shape (BoolArr A) = (nrows A, ncols A)"
| "shape (IntArr A) = (nrows A, ncols A)"
| "shape (FloatArr A) = (nrows A, ncols A)"

fun ndim2 :: "ndarray \<Rightarrow> bool" where
  "ndim2 (BoolArr A) = is_2d A"
| "ndim2 (IntArr A) = is_2d A"
| "ndim2 (FloatArr A) = is_2d A"

text \<open>The array with \<open>m\<close> rows and \<open>n\<close> columns whose entry \<open>(i, j)\<close> is \<open>f i j\<close>.\<close>

definition tabulate2 :: "nat \<Rightarrow> nat \<Rightarrow> (nat \<Rightarrow> nat \<Rightarrow> 'a) \<Rightarrow> 'a list list" where
  "tabulate2 m n f = map (\<lambda>i. map (\<lambda>j. f i j) [0..<n]) [0..<m]"

text \<open>An operator applied entry by entry to two arrays of the same shape.\<close>

definition elementwise :: "('a \<Rightarrow> 'b \<Rightarrow> 'c) \<Rightarrow> 'a list list \<Rightarrow> 'b list list \<Rightarrow> 'c list list" where
  "elementwise f A B = map2 (map2 f) A B"

text \<open>Conversion to float64, as arithmetic with a float64 array does to the other operand.\<close>

fun as_float :: "ndarray \<Rightarrow> real list list" where
  "as_float (BoolArr A) = map (map of_bool) A"
| "as_float (IntArr A) = map (map of_int) A"
| "as_float (FloatArr A) = A"

text \<open>\<^verbatim>\<open>np.ones((a, b))\<close>: a float64 array of ones.\<close>

definition np_ones :: "nat \<Rightarrow> nat \<Rightarrow> real list list" where
  "np_ones a b = replicate a (replicate b 1)"

text \<open>
  \<^verbatim>\<open>convolve2d(X, H, mode='same', boundary='wrap')\<close> of \<^verbatim>\<open>scipy.signal\<close> with a float64
  kernel \<open>H\<close>: the result is float64 and has the shape of \<open>X\<close>. Output entry \<open>(m, n)\<close>
  sums \<open>X[m + c0 - j, n + c1 - k] * H[j, k]\<close> over the kernel, where \<open>(c0, c1)\<close> is the
  kernel's centre, and an index that leaves the array on one side re-enters on the other
  (\<open>wrap_index\<close>: the library adds or subtracts the axis length once).
\<close>

definition wrap_index :: "nat \<Rightarrow> int \<Rightarrow> nat" where
  "wrap_index N i = nat (if i < 0 then int N + i else if int N \<le> i then i - int N else i)"

definition convolve2d :: "ndarray \<Rightarrow> real list list \<Rightarrow> real list list" where
  "convolve2d X H =
     (let A = as_float X in
      tabulate2 (nrows A) (ncols A) (\<lambda>m n.
        \<Sum>j\<leftarrow>[0..<nrows H]. \<Sum>k\<leftarrow>[0..<ncols H].
          A ! wrap_index (nrows A) (int m + int ((nrows H - 1) div 2) - int j)
            ! wrap_index (ncols A) (int n + int ((ncols H - 1) div 2) - int k)
          * H ! j ! k))"

text \<open>\<^verbatim>\<open>C - X\<close> for a float64 array \<open>C\<close>: the result is float64.\<close>

definition np_sub :: "real list list \<Rightarrow> ndarray \<Rightarrow> real list list" where
  "np_sub C X = elementwise (\<lambda>c x. c - x) C (as_float X)"

text \<open>\<^verbatim>\<open>C == v\<close> for a float64 array and a Python integer: a boolean array.\<close>

definition np_eq :: "real list list \<Rightarrow> int \<Rightarrow> bool list list" where
  "np_eq C v = map (map (\<lambda>c. c = of_int v)) C"

text \<open>
  \<^verbatim>\<open>X & B\<close> and \<^verbatim>\<open>B | Y\<close> for a boolean array \<open>B\<close>. On booleans they are the logical
  operators; with an integer array the boolean is cast to 0/1 and the operator works on
  the bits; for float64 the library has no such operator and raises \<^verbatim>\<open>TypeError\<close>.
\<close>

fun np_and :: "ndarray \<Rightarrow> bool list list \<Rightarrow> py_error + ndarray" where
  "np_and (BoolArr A) B = Inr (BoolArr (elementwise (\<lambda>x b. x \<and> b) A B))"
| "np_and (IntArr A) B = Inr (IntArr (elementwise (\<lambda>x b. x AND of_bool b) A B))"
| "np_and (FloatArr A) B = Inl TypeError"

fun np_or :: "bool list list \<Rightarrow> ndarray \<Rightarrow> py_error + ndarray" where
  "np_or B (BoolArr A) = Inr (BoolArr (elementwise (\<lambda>b y. b \<or> y) B A))"
| "np_or B (IntArr A) = Inr (IntArr (elementwise (\<lambda>b y. of_bool b OR y) B A))"
| "np_or B (FloatArr A) = Inl TypeError"

text \<open>
  \<^verbatim>\<open>np.pad(X, p, 'constant')\<close>: \<open>p\<close> rows and columns of zeros on each side; the library
  raises \<^verbatim>\<open>ValueError\<close> for a negative width.
\<close>

definition pad2 :: "'a \<Rightarrow> nat \<Rightarrow> 'a list list \<Rightarrow> 'a list list" where
  "pad2 z p A =
     (let blank = replicate (p + ncols A + p) z in
      replicate p blank @ map (\<lambda>r. replicate p z @ r @ replicate p z) A @ replicate p blank)"

fun np_pad :: "ndarray \<Rightarrow> int \<Rightarrow> py_error + ndarray" where
  "np_pad X p =
     (if p < 0 then Inl ValueError
      else Inr (case X of
             BoolArr A \<Rightarrow> BoolArr (pad2 False (nat p) A)
           | IntArr A \<Rightarrow> IntArr (pad2 0 (nat p) A)
           | FloatArr A \<Rightarrow> FloatArr (pad2 0 (nat p) A)))"

section \<open>The step function\<close>

text \<open>
  \<^verbatim>\<open>
  def single_step(X):
      nbrs_count = convolve2d(X, np.ones((3, 3)), mode='same', boundary='wrap') - X
      return (nbrs_count == 3) | (X & (nbrs_count == 2))
  \<close>
\<close>

definition single_step :: "ndarray \<Rightarrow> py_error + ndarray" where
  "single_step X =
     (let nbrs_count = np_sub (convolve2d X (np_ones 3 3)) X in
      case np_and X (np_eq nbrs_count 2) of
        Inl e \<Rightarrow> Inl e
      | Inr a \<Rightarrow> np_or (np_eq nbrs_count 3) a)"

definition glider :: "int list list" where
  "glider = [[1, 0, 0], [0, 1, 1], [1, 1, 0]]"

section \<open>The simulator\<close>

text \<open>
  \<^verbatim>\<open>
  class GameOfLifeSimple(object):
      def __init__(self, pattern=np.array(glider, dtype=int), padding=5):
          self.time = 0
          self.board = hv.Image(np.pad(pattern, padding, 'constant'))
      def step(self):
          data = single_step(self.board.data)
          self.board.data = data
          self.time += 1
          return hv.Image(data)
      def run_until(self, time):
          times = range(self.time, time)
          for t in times:
              state = self.step()
          return state if times else hv.Image(self.board.data)
  \<close>
  An \<^verbatim>\<open>hv.Image\<close> is the display library's wrapper around an array. A method takes the
  object and returns what the call returns or raises, together with the object as the
  call leaves it.
\<close>

record Image =
  data :: ndarray

record GameOfLifeSimple =
  time :: int
  board :: Image

definition init :: "ndarray \<Rightarrow> int \<Rightarrow> py_error + GameOfLifeSimple" where
  "init pattern padding =
     (case np_pad pattern padding of
        Inl e \<Rightarrow> Inl e
      | Inr b \<Rightarrow> Inr \<lparr>time = 0, board = \<lparr>data = b\<rparr>\<rparr>)"

definition step :: "GameOfLifeSimple \<Rightarrow> (py_error + Image) \<times> GameOfLifeSimple" where
  "step self =
     (case single_step (data (board self)) of
        Inl e \<Rightarrow> (Inl e, self)
      | Inr d \<Rightarrow> (Inr \<lparr>data = d\<rparr>,
                  self\<lparr>board := (board self)\<lparr>data := d\<rparr>, time := time self + 1\<rparr>))"

text \<open>\<^verbatim>\<open>range(a, b)\<close>: the integers from \<open>a\<close> up to \<open>b - 1\<close>, none when \<open>b \<le> a\<close>.\<close>

definition py_range :: "int \<Rightarrow> int \<Rightarrow> int list" where
  "py_range a b = [a..b - 1]"

text \<open>
  The \<^verbatim>\<open>for\<close> loop of \<^verbatim>\<open>run_until\<close>; the local variable \<^verbatim>\<open>state\<close> is unbound
  (\<open>None\<close>) until the first iteration assigns it.
\<close>

fun for_times :: "int list \<Rightarrow> Image option \<Rightarrow> GameOfLifeSimple
    \<Rightarrow> (py_error + Image option) \<times> GameOfLifeSimple" where
  "for_times [] state self = (Inr state, self)"
| "for_times (t # ts) state self =
     (case step self of
        (Inl e, self') \<Rightarrow> (Inl e, self')
      | (Inr img, self') \<Rightarrow> for_times ts (Some img) self')"

definition run_until :: "GameOfLifeSimple \<Rightarrow> int \<Rightarrow> (py_error + Image) \<times> GameOfLifeSimple" where
  "run_until self t =
     (let times = py_range (time self) t in
      case for_times times None self of
        (Inl e, self') \<Rightarrow> (Inl e, self')
      | (Inr state, self') \<Rightarrow>
          if times \<noteq> [] then
            (case state of
               None \<Rightarrow> (Inl UnboundLocalError, self')
             | Some img \<Rightarrow> (Inr img, self'))
          else (Inr \<lparr>data = data (board self')\<rparr>, self'))"

section \<open>Notions of the specification and of the proofs\<close>

text \<open>
  The eight neighbour offsets, and the sum of an array's entries at the eight wrapped
  neighbour positions of \<open>(i, j)\<close>: what \<^verbatim>\<open>nbrs_count\<close> holds at \<open>(i, j)\<close>.
\<close>

definition offsets8 :: "(int \<times> int) list" where
  "offsets8 = [(-1, -1), (-1, 0), (-1, 1), (0, -1), (0, 1), (1, -1), (1, 0), (1, 1)]"

definition nbr_sum :: "real list list \<Rightarrow> nat \<Rightarrow> nat \<Rightarrow> real" where
  "nbr_sum A i j =
     (\<Sum>(di, dj)\<leftarrow>offsets8. A ! wrap_index (nrows A) (int i + di) ! wrap_index (ncols A) (int j + dj))"

text \<open>
  The table of next cells: \<open>f\<close> combines the neighbour sum at \<open>(i, j)\<close>, computed on the
  float64 cast \<open>c\<close> of the entries, with the entry at \<open>(i, j)\<close>.
\<close>

definition step_table :: "(real \<Rightarrow> 'a \<Rightarrow> 'a) \<Rightarrow> ('a \<Rightarrow> real) \<Rightarrow> 'a list list \<Rightarrow> 'a list list" where
  "step_table f c A =
     tabulate2 (nrows A) (ncols A) (\<lambda>i j. f (nbr_sum (map (map c) A) i j) (A ! i ! j))"

text \<open>A cell is live when its entry is \<^verbatim>\<open>True\<close> or non-zero.\<close>

fun live :: "ndarray \<Rightarrow> nat \<Rightarrow> nat \<Rightarrow> bool" where
  "live (BoolArr A) i j = A ! i ! j"
| "live (IntArr A) i j = (A ! i ! j \<noteq> 0)"
| "live (FloatArr A) i j = (A ! i ! j \<noteq> 0)"

text \<open>
  Toroidal neighbour counting as the specification words it: positions are taken modulo
  the grid's dimensions, and the live cells among the eight neighbours are counted.
\<close>

definition torus :: "nat \<Rightarrow> int \<Rightarrow> nat" where
  "torus N i = nat (i mod int N)"

definition live_nbrs :: "ndarray \<Rightarrow> nat \<Rightarrow> nat \<Rightarrow> nat" where
  "live_nbrs X i j =
     length (filter (\<lambda>(di, dj). live X (torus (fst (shape X)) (int i + di)) (torus (snd (shape X)) (int j + dj)))
       offsets8)"

definition conway_next :: "ndarray \<Rightarrow> nat \<Rightarrow> nat \<Rightarrow> bool" where
  "conway_next X i j = (live_nbrs X i j = 3 \<or> (live X i j \<and> live_nbrs X i j = 2))"

text \<open>
  The specification's grid: a 2-D boolean matrix, or a 2-D integer matrix whose entries
  are 0 or 1.
\<close>

definition binary :: "int list list \<Rightarrow> bool" where
  "binary A = list_all (list_all (\<lambda>x. x = 0 \<or> x = 1)) A"

fun is_grid :: "ndarray \<Rightarrow> bool" where
  "is_grid (BoolArr A) = is_2d A"
| "is_grid (IntArr A) = (is_2d A \<and> binary A)"
| "is_grid (FloatArr A) = False"

text \<open>\<^verbatim>\<open>single_step\<close> applied \<open>n\<close> times in a row, stopping at the first error.\<close>

fun steps :: "nat \<Rightarrow> ndarray \<Rightarrow> py_error + ndarray" where
  "steps 0 X = Inr X"
| "steps (Suc n) X = (case single_step X of Inl e \<Rightarrow> Inl e | Inr Y \<Rightarrow> steps n Y)"

text \<open>The object after \<open>n\<close> successive calls of \<^verbatim>\<open>step()\<close>.\<close>

fun after_steps :: "nat \<Rightarrow> GameOfLifeSimple \<Rightarrow> GameOfLifeSimple" where
  "after_steps 0 self = self"
| "after_steps (Suc n) self = snd (step (after_steps n self))"

text \<open>
  A pattern padded on every side with \<open>p\<close> rows and columns of \<open>z\<close>, entry by entry: the
  pattern sits at offset \<open>(p, p)\<close> and every other entry is \<open>z\<close>.
\<close>

definition padded :: "'a \<Rightarrow> nat \<Rightarrow> 'a list list \<Rightarrow> 'a list list" where
  "padded z p A =
     tabulate2 (p + nrows A + p) (p + ncols A + p) (\<lambda>i j.
       if p \<le> i \<and> i < p + nrows A \<and> p \<le> j \<and> j < p + ncols A then A ! (i - p) ! (j - p) else z)"

fun padded_array :: "nat \<Rightarrow> ndarray \<Rightarrow> ndarray" where
  "padded_array p (BoolArr A) = BoolArr (padded False p A)"
| "padded_array p (IntArr A) = IntArr (padded 0 p A)"
| "padded_array p (FloatArr A) = FloatArr (padded 0 p A)"

text \<open>
  A board moved one row down and one column to the right: entry \<open>(i, j)\<close> is the old
  entry \<open>(i - 1, j - 1)\<close>, and the first row and column are dead.
\<close>

definition moved_down_right :: "int list list \<Rightarrow> int list list" where
  "moved_down_right A =
     tabulate2 (nrows A) (ncols A) (\<lambda>i j. if 1 \<le> i \<and> 1 \<le> j then A ! (i - 1) ! (j - 1) else 0)"

text \<open>
  Rotation by a quarter turn and the two reflections, as \<^verbatim>\<open>np.rot90\<close>, \<^verbatim>\<open>np.fliplr\<close>
  and \<^verbatim>\<open>np.flipud\<close> define them: \<open>rot90(X)[i, j] = X[j, n - 1 - i]\<close> for \<open>n\<close> columns,
  \<open>fliplr\<close> reverses every row, \<open>flipud\<close> reverses the order of the rows.
\<close>

definition rot90 :: "'a list list \<Rightarrow> 'a list list" where
  "rot90 A = tabulate2 (ncols A) (nrows A) (\<lambda>i j. A ! j ! (ncols A - 1 - i))"

definition fliplr :: "'a list list \<Rightarrow> 'a list list" where
  "fliplr A = map rev A"

definition flipud :: "'a list list \<Rightarrow> 'a list list" where
  "flipud A = rev A"

fun np_rot90 :: "ndarray \<Rightarrow> ndarray" where
  "np_rot90 (BoolArr A) = BoolArr (rot90 A)"
| "np_rot90 (IntArr A) = IntArr (rot90 A)"
| "np_rot90 (FloatArr A) = FloatArr (rot90 A)"

fun np_fliplr :: "ndarray \<Rightarrow> ndarray" where
  "np_fliplr (BoolArr A) = BoolArr (fliplr A)"
| "np_fliplr (IntArr A) = IntArr (fliplr A)"
| "np_fliplr (FloatArr A) = FloatArr (fliplr A)"

fun np_flipud :: "ndarray \<Rightarrow> ndarray" where
  "np_flipud (BoolArr A) = BoolArr (flipud A)"
| "np_flipud (IntArr A) = IntArr (flipud A)"
| "np_flipud (FloatArr A) = FloatArr (flipud A)"

section \<open>The step function on a store of arrays\<close>

text \<open>
  To speak about what a call leaves unchanged, arrays live in a store and are passed by
  address. Every operator of \<^verbatim>\<open>single_step\<close> (\<^verbatim>\<open>np.ones\<close>, \<^verbatim>\<open>convolve2d\<close>, \<^verbatim>\<open>-\<close>, \<^verbatim>\<open>==\<close>,
  \<^verbatim>\<open>&\<close>, \<^verbatim>\<open>|\<close>) reads its operands and puts its result into a newly allocated array; none
  of them is an in-place operator. An address is an index into the store and a new array
  gets the next free index.
\<close>

type_synonym store = "ndarray list"

definition new_array :: "ndarray \<Rightarrow> store \<Rightarrow> nat \<times> store" where
  "new_array a h = (length h, h @ [a])"

fun as_bool :: "ndarray \<Rightarrow> bool list list" where
  "as_bool (BoolArr A) = A"
| "as_bool (IntArr A) = map (map (\<lambda>x. x \<noteq> 0)) A"
| "as_bool (FloatArr A) = map (map (\<lambda>x. x \<noteq> 0)) A"

definition single_step_store :: "store \<Rightarrow> nat \<Rightarrow> (py_error + nat) \<times> store" where
  "single_step_store h x =
     (let (k, h) = new_array (FloatArr (np_ones 3 3)) h;
          (c, h) = new_array (FloatArr (convolve2d (h ! x) (as_float (h ! k)))) h;
          (nbrs_count, h) = new_array (FloatArr (np_sub (as_float (h ! c)) (h ! x))) h;
          (eq3, h) = new_array (BoolArr (np_eq (as_float (h ! nbrs_count)) 3)) h;
          (eq2, h) = new_array (BoolArr (np_eq (as_float (h ! nbrs_count)) 2)) h
      in case np_and (h ! x) (as_bool (h ! eq2)) of
           Inl e \<Rightarrow> (Inl e, h)
         | Inr a \<Rightarrow>
             (let (conj, h) = new_array a h in
              case np_or (as_bool (h ! eq3)) (h ! conj) of
                Inl e \<Rightarrow> (Inl e, h)
              | Inr r \<Rightarrow> (let (res, h) = new_array r h in (Inr res, h))))"

section \<open>Arrays as tables\<close>

lemma length_tabulate2 [simp]: "length (tabulate2 m n f) = m"
  by (simp add: tabulate2_def)

lemma nrows_tabulate2 [simp]: "nrows (tabulate2 m n f) = m"
  by (simp add: nrows_def)

lemma nth_tabulate2_row: "i < m \<Longrightarrow> tabulate2 m n f ! i = map (f i) [0..<n]"
  by (simp add: tabulate2_def)

lemma nth_tabulate2 [simp]: "i < m \<Longrightarrow> j < n \<Longrightarrow> tabulate2 m n f ! i ! j = f i j"
  by (simp add: tabulate2_def)

lemma ncols_tabulate2: "ncols (tabulate2 m n f) = (if m = 0 then 0 else n)"
  by (cases m) (simp_all add: ncols_def tabulate2_def upt_conv_Cons del: upt_Suc)

lemma is_2d_tabulate2 [simp]: "is_2d (tabulate2 m n f)"
  by (cases m) (simp_all add: is_2d_def list_all_length ncols_tabulate2 nth_tabulate2_row)

lemma is_2d_row: "is_2d A \<Longrightarrow> i < nrows A \<Longrightarrow> length (A ! i) = ncols A"
  by (simp add: is_2d_def list_all_length nrows_def)

lemma ncols_0: "nrows A = 0 \<Longrightarrow> ncols A = 0"
  by (simp add: nrows_def ncols_def)

lemma tabulate2_cong:
  "(\<And>i j. i < m \<Longrightarrow> j < n \<Longrightarrow> f i j = g i j) \<Longrightarrow> tabulate2 m n f = tabulate2 m n g"
  by (simp add: tabulate2_def)

lemma tabulate2_nth: "is_2d A \<Longrightarrow> tabulate2 (nrows A) (ncols A) (\<lambda>i j. A ! i ! j) = A"
proof -
  assume a: "is_2d A"
  have "map (\<lambda>i. map (\<lambda>j. A ! i ! j) [0..<ncols A]) [0..<length A] = map (\<lambda>i. A ! i) [0..<length A]"
  proof (rule map_cong[OF refl])
    fix i assume "i \<in> set [0..<length A]"
    then have "length (A ! i) = ncols A" using a by (simp add: is_2d_row nrows_def)
    then show "map (\<lambda>j. A ! i ! j) [0..<ncols A] = A ! i"
      using map_nth[of "A ! i"] by simp
  qed
  then show ?thesis by (simp add: tabulate2_def nrows_def map_nth)
qed

lemma elementwise_tabulate2:
  "elementwise f (tabulate2 m n g) (tabulate2 m n h) = tabulate2 m n (\<lambda>i j. f (g i j) (h i j))"
  by (auto simp: elementwise_def tabulate2_def list_eq_iff_nth_eq)

lemma map_map_tabulate2:
  "map (map f) (tabulate2 m n g) = tabulate2 m n (\<lambda>i j. f (g i j))"
  by (simp add: tabulate2_def)

lemma nrows_map_map [simp]: "nrows (map (map f) A) = nrows A"
  by (simp add: nrows_def)

lemma ncols_map_map [simp]: "ncols (map (map f) A) = ncols A"
  by (cases A) (simp_all add: ncols_def)

lemma is_2d_map_map [simp]: "is_2d (map (map f) A) = is_2d A"
  by (simp add: is_2d_def list_all_iff)

section \<open>The step is Conway's rule on the torus\<close>

lemma upt_3: "[0..<3] = [0, 1, 2]"
  by (simp add: upt_rec)

lemma nrows_np_ones [simp]: "nrows (np_ones a b) = a"
  by (simp add: nrows_def np_ones_def)

lemma ncols_np_ones_3 [simp]: "ncols (np_ones 3 3) = 3"
  by (simp add: ncols_def np_ones_def numeral_3_eq_3)

lemma np_ones_nth [simp]: "j < a \<Longrightarrow> k < b \<Longrightarrow> np_ones a b ! j ! k = 1"
  by (simp add: np_ones_def)

lemma wrap_index_self [simp]: "i < N \<Longrightarrow> wrap_index N (int i) = i"
  by (simp add: wrap_index_def)

lemma convolve2d_ones:
  "convolve2d X (np_ones 3 3) =
     tabulate2 (nrows (as_float X)) (ncols (as_float X))
       (\<lambda>i j. nbr_sum (as_float X) i j + as_float X ! i ! j)"
  unfolding convolve2d_def Let_def
  by (rule tabulate2_cong) (simp add: upt_3 nbr_sum_def offsets8_def)

lemma is_2d_as_float [simp]: "is_2d (as_float X) = ndim2 X"
  by (cases X) simp_all

lemma nbrs_count_closed:
  assumes "ndim2 X"
  shows "np_sub (convolve2d X (np_ones 3 3)) X =
     tabulate2 (nrows (as_float X)) (ncols (as_float X)) (nbr_sum (as_float X))"
proof -
  let ?A = "as_float X"
  have "?A = tabulate2 (nrows ?A) (ncols ?A) (\<lambda>i j. ?A ! i ! j)"
    using assms by (simp add: tabulate2_nth)
  then have "np_sub (convolve2d X (np_ones 3 3)) X =
      elementwise (\<lambda>c x. c - x)
        (tabulate2 (nrows ?A) (ncols ?A) (\<lambda>i j. nbr_sum ?A i j + ?A ! i ! j))
        (tabulate2 (nrows ?A) (ncols ?A) (\<lambda>i j. ?A ! i ! j))"
    by (simp add: np_sub_def convolve2d_ones)
  then show ?thesis
    by (simp add: elementwise_tabulate2)
qed

lemma single_step_BoolArr:
  assumes "is_2d A"
  shows "single_step (BoolArr A) =
     Inr (BoolArr (tabulate2 (nrows A) (ncols A) (\<lambda>i j.
       nbr_sum (map (map of_bool) A) i j = 3 \<or> (A ! i ! j \<and> nbr_sum (map (map of_bool) A) i j = 2))))"
proof -
  have A: "A = tabulate2 (nrows A) (ncols A) (\<lambda>i j. A ! i ! j)"
    using assms by (simp add: tabulate2_nth)
  have "np_sub (convolve2d (BoolArr A) (np_ones 3 3)) (BoolArr A) =
      tabulate2 (nrows A) (ncols A) (nbr_sum (map (map of_bool) A))"
    using nbrs_count_closed[of "BoolArr A"] assms by simp
  then show ?thesis
    unfolding single_step_def Let_def
    by (subst (3) A) (simp add: np_eq_def map_map_tabulate2 elementwise_tabulate2)
qed

lemma single_step_IntArr:
  assumes "is_2d A"
  shows "single_step (IntArr A) =
     Inr (IntArr (tabulate2 (nrows A) (ncols A) (\<lambda>i j.
       of_bool (nbr_sum (map (map of_int) A) i j = 3)
         OR (A ! i ! j AND of_bool (nbr_sum (map (map of_int) A) i j = 2)))))"
proof -
  have A: "A = tabulate2 (nrows A) (ncols A) (\<lambda>i j. A ! i ! j)"
    using assms by (simp add: tabulate2_nth)
  have "np_sub (convolve2d (IntArr A) (np_ones 3 3)) (IntArr A) =
      tabulate2 (nrows A) (ncols A) (nbr_sum (map (map of_int) A))"
    using nbrs_count_closed[of "IntArr A"] assms by simp
  then show ?thesis
    unfolding single_step_def Let_def
    by (subst (3) A) (simp add: np_eq_def map_map_tabulate2 elementwise_tabulate2)
qed

lemma single_step_FloatArr: "single_step (FloatArr A) = Inl TypeError"
  by (simp add: single_step_def)

lemma wrap_index_torus:
  "i < N \<Longrightarrow> d \<in> {-1, 0, 1} \<Longrightarrow> wrap_index N (int i + d) = torus N (int i + d)"
proof -
  assume i: "i < N" and d: "d \<in> {-1, 0, 1}"
  consider "int i + d < 0" | "int N \<le> int i + d" | "0 \<le> int i + d" "int i + d < int N"
    by linarith
  then show ?thesis
  proof cases
    case 1
    with i d have "int i + d = -1" by auto
    then show ?thesis using i by (simp add: wrap_index_def torus_def zmod_minus1)
  next
    case 2
    with i d have "int i + d = int N" by auto
    then show ?thesis by (simp add: wrap_index_def torus_def)
  next
    case 3
    then show ?thesis by (simp add: wrap_index_def torus_def)
  qed
qed

lemma torus_less: "0 < N \<Longrightarrow> torus N i < N"
  unfolding torus_def by (simp add: nat_less_iff)

lemma real_length_filter: "real (length (filter P xs)) = (\<Sum>x\<leftarrow>xs. of_bool (P x))"
  by (induction xs) simp_all

lemma set_offsets8: "(di, dj) \<in> set offsets8 \<Longrightarrow> di \<in> {-1, 0, 1} \<and> dj \<in> {-1, 0, 1}"
  by (auto simp: offsets8_def)

lemma nbr_sum_eq_count:
  assumes "is_2d A" "i < nrows A" "j < ncols A"
    and cell: "\<And>a b. a < nrows A \<Longrightarrow> b < ncols A \<Longrightarrow> A ! a ! b = of_bool (live X a b)"
    and sh: "shape X = (nrows A, ncols A)"
  shows "nbr_sum A i j = real (live_nbrs X i j)"
proof -
  have "map (\<lambda>(di, dj). A ! wrap_index (nrows A) (int i + di) ! wrap_index (ncols A) (int j + dj)) offsets8
      = map (\<lambda>x. of_bool ((\<lambda>(di, dj). live X (torus (nrows A) (int i + di)) (torus (ncols A) (int j + dj))) x)) offsets8"
  proof (rule map_cong[OF refl])
    fix x assume x: "x \<in> set offsets8"
    obtain di dj where [simp]: "x = (di, dj)" by (cases x)
    from x have d: "di \<in> {-1, 0, 1}" "dj \<in> {-1, 0, 1}"
      using set_offsets8 by auto
    have "torus (nrows A) (int i + di) < nrows A" "torus (ncols A) (int j + dj) < ncols A"
      using assms(2,3) by (simp_all add: torus_less)
    then show "(case x of (di, dj) \<Rightarrow> A ! wrap_index (nrows A) (int i + di) ! wrap_index (ncols A) (int j + dj))
        = of_bool (case x of (di, dj) \<Rightarrow> live X (torus (nrows A) (int i + di)) (torus (ncols A) (int j + dj)))"
      using assms(2,3) d by (simp add: wrap_index_torus cell)
  qed
  then have "nbr_sum A i j =
      (\<Sum>x\<leftarrow>offsets8. of_bool ((\<lambda>(di, dj). live X (torus (nrows A) (int i + di)) (torus (ncols A) (int j + dj))) x))"
    unfolding nbr_sum_def by (rule arg_cong)
  also have "\<dots> = real (live_nbrs X i j)"
    unfolding live_nbrs_def sh fst_conv snd_conv by (rule real_length_filter[symmetric])
  finally show ?thesis .
qed

lemma binary_nth: "binary A \<Longrightarrow> a < length A \<Longrightarrow> b < length (A ! a) \<Longrightarrow> A ! a ! b = 0 \<or> A ! a ! b = 1"
  by (simp add: binary_def list_all_length)

lemma binary_tabulate2: "(\<And>i j. i < m \<Longrightarrow> j < n \<Longrightarrow> f i j = 0 \<or> f i j = 1) \<Longrightarrow> binary (tabulate2 m n f)"
  by (simp add: binary_def tabulate2_def list_all_length)

lemma single_step_BoolArr_conway:
  assumes "is_2d A"
  shows "single_step (BoolArr A) =
     Inr (BoolArr (tabulate2 (nrows A) (ncols A) (conway_next (BoolArr A))))"
proof -
  have "tabulate2 (nrows A) (ncols A) (\<lambda>i j.
       nbr_sum (map (map of_bool) A) i j = 3 \<or> (A ! i ! j \<and> nbr_sum (map (map of_bool) A) i j = 2))
     = tabulate2 (nrows A) (ncols A) (conway_next (BoolArr A))"
  proof (rule tabulate2_cong)
    fix i j assume ij: "i < nrows A" "j < ncols A"
    have "nbr_sum (map (map of_bool) A) i j = real (live_nbrs (BoolArr A) i j)"
      using assms ij
      by (intro nbr_sum_eq_count) (simp_all add: nrows_def is_2d_row)
    then show "(nbr_sum (map (map of_bool) A) i j = 3 \<or> (A ! i ! j \<and> nbr_sum (map (map of_bool) A) i j = 2))
        = conway_next (BoolArr A) i j"
      by (simp add: conway_next_def)
  qed
  then show ?thesis
    by (simp add: single_step_BoolArr[OF assms])
qed

lemma single_step_IntArr_conway:
  assumes "is_2d A" "binary A"
  shows "single_step (IntArr A) =
     Inr (IntArr (tabulate2 (nrows A) (ncols A) (\<lambda>i j. of_bool (conway_next (IntArr A) i j))))"
proof -
  have "tabulate2 (nrows A) (ncols A) (\<lambda>i j.
       of_bool (nbr_sum (map (map of_int) A) i j = 3)
         OR (A ! i ! j AND of_bool (nbr_sum (map (map of_int) A) i j = 2)))
     = tabulate2 (nrows A) (ncols A) (\<lambda>i j. of_bool (conway_next (IntArr A) i j))"
  proof (rule tabulate2_cong)
    fix i j assume ij: "i < nrows A" "j < ncols A"
    have cell: "A ! a ! b = 0 \<or> A ! a ! b = 1" if "a < nrows A" "b < ncols A" for a b
      using that assms by (simp add: binary_nth nrows_def is_2d_row)
    have "nbr_sum (map (map of_int) A) i j = real (live_nbrs (IntArr A) i j)"
      using assms ij cell
      by (intro nbr_sum_eq_count) (auto simp: nrows_def is_2d_row)
    then show "of_bool (nbr_sum (map (map of_int) A) i j = 3)
         OR (A ! i ! j AND of_bool (nbr_sum (map (map of_int) A) i j = 2))
        = of_bool (conway_next (IntArr A) i j)"
      using cell[OF ij] by (auto simp: conway_next_def)
  qed
  then show ?thesis
    by (simp add: single_step_IntArr[OF assms(1)])
qed

text \<open>
  Claim C1. For every grid \<open>X\<close> (a 2-D boolean matrix or a 2-D 0/1 integer matrix),
  \<^verbatim>\<open>single_step(X)\<close> returns a grid of the same dtype and shape in which cell \<open>(i, j)\<close>
  is live if and only if the number of live cells among its eight toroidal neighbours in
  \<open>X\<close> is exactly 3, or the cell is live in \<open>X\<close> and that number is exactly 2.
\<close>

theorem single_step_conway:
  assumes "is_grid X"
  shows "\<exists>Y. single_step X = Inr Y \<and> is_grid Y \<and> dtype_of Y = dtype_of X \<and> shape Y = shape X \<and>
     (\<forall>i<fst (shape X). \<forall>j<snd (shape X).
        live Y i j = (live_nbrs X i j = 3 \<or> (live X i j \<and> live_nbrs X i j = 2)))"
proof (cases X)
  case (BoolArr A)
  with assms have "is_2d A" by simp
  then show ?thesis
    using BoolArr
    by (simp add: single_step_BoolArr_conway ncols_tabulate2 ncols_0 conway_next_def)
next
  case (IntArr A)
  with assms have "is_2d A" "binary A" by simp_all
  then show ?thesis
    using IntArr
    by (simp add: single_step_IntArr_conway ncols_tabulate2 ncols_0 conway_next_def binary_tabulate2)
next
  case (FloatArr A)
  with assms show ?thesis by simp
qed

theorem single_step_conway_witness:
  "is_grid (IntArr (pad2 0 1 glider)) \<and>
   (\<exists>Y. single_step (IntArr (pad2 0 1 glider)) = Inr Y \<and> is_grid Y \<and> shape Y = (5, 5) \<and>
        live Y 1 2 \<and> \<not> live Y 1 1)"
proof -
  let ?X = "IntArr (pad2 0 1 glider)"
  have g: "is_grid ?X" by code_simp
  have sh: "shape ?X = (5, 5)" by code_simp
  have n12: "live_nbrs ?X 1 2 = 3" "\<not> live ?X 1 2" by code_simp+
  have n11: "live_nbrs ?X 1 1 = 1" by code_simp
  from single_step_conway[OF g] obtain Y where Y: "single_step ?X = Inr Y" "is_grid Y"
    "shape Y = shape ?X"
    "\<forall>i<fst (shape ?X). \<forall>j<snd (shape ?X).
        live Y i j = (live_nbrs ?X i j = 3 \<or> (live ?X i j \<and> live_nbrs ?X i j = 2))"
    by blast
  from Y(4) have "live Y 1 2 = (live_nbrs ?X 1 2 = 3 \<or> (live ?X 1 2 \<and> live_nbrs ?X 1 2 = 2))"
    "live Y 1 1 = (live_nbrs ?X 1 1 = 3 \<or> (live ?X 1 1 \<and> live_nbrs ?X 1 1 = 2))"
    unfolding sh by simp_all
  then have "live Y 1 2" "\<not> live Y 1 1"
    using n12 n11 by simp_all
  then show ?thesis
    using g Y(1,2,3) sh by auto
qed

section \<open>The simulator: time, shape and errors\<close>

lemma single_step_dtype:
  "dtype_of X \<noteq> np_float64 \<Longrightarrow> \<exists>Y. single_step X = Inr Y \<and> dtype_of Y = dtype_of X"
  by (cases X) (simp_all add: single_step_def Let_def)

lemma single_step_error:
  "single_step X = Inl e \<Longrightarrow> e = TypeError \<and> dtype_of X = np_float64"
  by (cases X) (simp_all add: single_step_def Let_def)

lemma single_step_shape:
  assumes "ndim2 X" "single_step X = Inr Y"
  shows "shape Y = shape X \<and> ndim2 Y"
proof (cases X)
  case (BoolArr A)
  then show ?thesis
    using assms single_step_BoolArr[of A] by (auto simp: ncols_tabulate2 ncols_0)
next
  case (IntArr A)
  then show ?thesis
    using assms single_step_IntArr[of A] by (auto simp: ncols_tabulate2 ncols_0)
next
  case (FloatArr A)
  then show ?thesis
    using assms by (simp add: single_step_FloatArr)
qed

lemma step_ok:
  "single_step (data (board self)) = Inr d \<Longrightarrow>
   step self = (Inr \<lparr>data = d\<rparr>, self\<lparr>board := (board self)\<lparr>data := d\<rparr>, time := time self + 1\<rparr>)"
  by (simp add: step_def)

lemma step_error:
  "single_step (data (board self)) = Inl e \<Longrightarrow> step self = (Inl e, self)"
  by (simp add: step_def)

lemma step_time: "time self \<le> time (snd (step self))"
  by (simp add: step_def split: sum.splits)

lemma step_shape:
  assumes "ndim2 (data (board self))"
  shows "shape (data (board (snd (step self)))) = shape (data (board self))
       \<and> ndim2 (data (board (snd (step self))))"
proof (cases "single_step (data (board self))")
  case (Inl e)
  then show ?thesis using assms by (simp add: step_error)
next
  case (Inr d)
  then show ?thesis using assms single_step_shape[OF assms Inr] by (simp add: step_ok)
qed

lemma for_times_ok:
  "dtype_of (data (board self)) \<noteq> np_float64 \<Longrightarrow>
   \<exists>B. steps (length ts) (data (board self)) = Inr B \<and> dtype_of B = dtype_of (data (board self)) \<and>
       for_times ts st self =
         (Inr (if ts = [] then st else Some \<lparr>data = B\<rparr>),
          self\<lparr>board := (board self)\<lparr>data := B\<rparr>, time := time self + int (length ts)\<rparr>)"
proof (induction ts arbitrary: st self)
  case Nil
  then show ?case by simp
next
  case (Cons t ts)
  from single_step_dtype[OF Cons.prems] obtain d
    where d: "single_step (data (board self)) = Inr d" "dtype_of d = dtype_of (data (board self))"
    by blast
  let ?self' = "self\<lparr>board := (board self)\<lparr>data := d\<rparr>, time := time self + 1\<rparr>"
  have "dtype_of (data (board ?self')) \<noteq> np_float64"
    using d(2) Cons.prems by simp
  from Cons.IH[OF this, of "Some \<lparr>data = d\<rparr>"] obtain B
    where B: "steps (length ts) d = Inr B" "dtype_of B = dtype_of d"
      "for_times ts (Some \<lparr>data = d\<rparr>) ?self' =
         (Inr (if ts = [] then Some \<lparr>data = d\<rparr> else Some \<lparr>data = B\<rparr>),
          ?self'\<lparr>board := (board ?self')\<lparr>data := B\<rparr>, time := time ?self' + int (length ts)\<rparr>)"
    by auto
  have "ts = [] \<Longrightarrow> B = d" using B(1) by simp
  then show ?case
    using d B by (auto simp: step_ok)
qed

lemma for_times_time: "time self \<le> time (snd (for_times ts st self))"
proof (induction ts arbitrary: st self)
  case Nil
  then show ?case by simp
next
  case (Cons t ts)
  show ?case
  proof (cases "single_step (data (board self))")
    case (Inl e)
    then show ?thesis by (simp add: step_error)
  next
    case (Inr d)
    have "time self \<le> time (self\<lparr>board := (board self)\<lparr>data := d\<rparr>, time := time self + 1\<rparr>)"
      by simp
    also have "\<dots> \<le> time (snd (for_times ts (Some \<lparr>data = d\<rparr>)
          (self\<lparr>board := (board self)\<lparr>data := d\<rparr>, time := time self + 1\<rparr>)))"
      by (rule Cons.IH)
    finally show ?thesis using Inr by (simp add: step_ok)
  qed
qed

lemma for_times_shape:
  "ndim2 (data (board self)) \<Longrightarrow>
   shape (data (board (snd (for_times ts st self)))) = shape (data (board self))
     \<and> ndim2 (data (board (snd (for_times ts st self))))"
proof (induction ts arbitrary: st self)
  case Nil
  then show ?case by simp
next
  case (Cons t ts)
  show ?case
  proof (cases "single_step (data (board self))")
    case (Inl e)
    then show ?thesis using Cons.prems by (simp add: step_error)
  next
    case (Inr d)
    let ?self' = "self\<lparr>board := (board self)\<lparr>data := d\<rparr>, time := time self + 1\<rparr>"
    from single_step_shape[OF Cons.prems Inr]
    have d: "shape d = shape (data (board self))" "ndim2 d" by simp_all
    then have "ndim2 (data (board ?self'))" by simp
    from Cons.IH[OF this, of "Some \<lparr>data = d\<rparr>"] show ?thesis
      using Inr d by (simp add: step_ok)
  qed
qed

lemma length_py_range: "length (py_range a b) = nat (b - a)"
  by (simp add: py_range_def)

lemma py_range_Nil: "py_range a b = [] \<longleftrightarrow> b \<le> a"
  by (auto simp: py_range_def)

lemma run_until_past:
  "t \<le> time self \<Longrightarrow> run_until self t = (Inr \<lparr>data = data (board self)\<rparr>, self)"
  by (simp add: run_until_def Let_def py_range_Nil[THEN iffD2])

lemma run_until_time: "time self \<le> time (snd (run_until self t))"
  using for_times_time[of self "py_range (time self) t" None]
  by (auto simp: run_until_def Let_def split: prod.splits sum.splits option.splits)

lemma run_until_shape:
  "ndim2 (data (board self)) \<Longrightarrow>
   shape (data (board (snd (run_until self t)))) = shape (data (board self))
     \<and> ndim2 (data (board (snd (run_until self t))))"
  using for_times_shape[of self "py_range (time self) t" None]
  by (auto simp: run_until_def Let_def split: prod.splits sum.splits option.splits)

lemma run_until_future:
  assumes "dtype_of (data (board self)) \<noteq> np_float64" "time self < t"
  shows "\<exists>B. steps (nat (t - time self)) (data (board self)) = Inr B \<and>
     run_until self t = (Inr \<lparr>data = B\<rparr>, self\<lparr>board := (board self)\<lparr>data := B\<rparr>, time := t\<rparr>)"
proof -
  let ?ts = "py_range (time self) t"
  have ne: "?ts \<noteq> []" using assms(2) by (simp add: py_range_Nil)
  from for_times_ok[OF assms(1), of ?ts None] obtain B
    where B: "steps (length ?ts) (data (board self)) = Inr B"
      "for_times ?ts None self =
         (Inr (if ?ts = [] then None else Some \<lparr>data = B\<rparr>),
          self\<lparr>board := (board self)\<lparr>data := B\<rparr>, time := time self + int (length ?ts)\<rparr>)"
    by blast
  have "time self + int (length ?ts) = t"
    using assms(2) by (simp add: length_py_range)
  then show ?thesis
    using B ne by (simp add: run_until_def Let_def length_py_range)
qed

lemma run_until_error:
  assumes "fst (run_until self t) = Inl e"
  shows "e = TypeError \<and> dtype_of (data (board self)) = np_float64 \<and> time self < t"
proof (cases "t \<le> time self")
  case True
  then show ?thesis using assms by (simp add: run_until_past)
next
  case False
  show ?thesis
  proof (cases "dtype_of (data (board self)) = np_float64")
    case True
    obtain r s where rs: "for_times (py_range (time self) t) None self = (r, s)"
      by (cases "for_times (py_range (time self) t) None self")
    from True obtain A where "data (board self) = FloatArr A"
      by (cases "data (board self)") simp_all
    then have "step self = (Inl TypeError, self)"
      by (simp add: step_error single_step_FloatArr)
    moreover have "py_range (time self) t \<noteq> []" using False by (simp add: py_range_Nil)
    ultimately have "for_times (py_range (time self) t) None self = (Inl TypeError, self)"
      by (cases "py_range (time self) t") simp_all
    then show ?thesis using assms True False by (simp add: run_until_def Let_def)
  next
    case nf: False
    from False have "time self < t" by simp
    from run_until_future[OF nf this] assms show ?thesis by auto
  qed
qed

text \<open>
  Claim C3. For a simulator whose board is a boolean or integer array, with current time
  \<open>t0\<close>: if \<open>t > t0\<close>, \<^verbatim>\<open>run_until(t)\<close> applies \<^verbatim>\<open>single_step\<close> to the board exactly
  \<open>t - t0\<close> times, leaves the time counter equal to \<open>t\<close> and returns the board after those
  steps; if \<open>t \<le> t0\<close> (negative \<open>t\<close> included) it performs no step, leaves board and time
  counter unchanged and returns the current board. Neither \<^verbatim>\<open>run_until\<close> nor \<^verbatim>\<open>step\<close>
  ever decreases the time counter, whatever the board.
\<close>

theorem run_until_spec:
  "(dtype_of (data (board self)) \<noteq> np_float64 \<and> time self < t \<longrightarrow>
      (\<exists>B. steps (nat (t - time self)) (data (board self)) = Inr B \<and>
           run_until self t =
             (Inr \<lparr>data = B\<rparr>, self\<lparr>board := (board self)\<lparr>data := B\<rparr>, time := t\<rparr>)))
   \<and> (t \<le> time self \<longrightarrow> run_until self t = (Inr \<lparr>data = data (board self)\<rparr>, self))
   \<and> time self \<le> time (snd (run_until self t))
   \<and> time self \<le> time (snd (step self))"
  using run_until_future[of self t] run_until_past[of t self] run_until_time[of self t]
    step_time[of self]
  by blast

theorem run_until_spec_witness:
  "time \<lparr>time = 3, board = \<lparr>data = IntArr (pad2 0 1 glider)\<rparr>\<rparr> < 4 \<and>
   steps (nat (4 - 3)) (IntArr (pad2 0 1 glider)) =
     Inr (IntArr [[0, 0, 0, 0, 0], [0, 0, 1, 0, 0], [0, 0, 0, 1, 0], [0, 1, 1, 1, 0], [0, 0, 0, 0, 0]]) \<and>
   run_until \<lparr>time = 3, board = \<lparr>data = IntArr (pad2 0 1 glider)\<rparr>\<rparr> 4 =
     (Inr \<lparr>data = IntArr [[0, 0, 0, 0, 0], [0, 0, 1, 0, 0], [0, 0, 0, 1, 0], [0, 1, 1, 1, 0], [0, 0, 0, 0, 0]]\<rparr>,
      \<lparr>time = 4,
       board = \<lparr>data = IntArr [[0, 0, 0, 0, 0], [0, 0, 1, 0, 0], [0, 0, 0, 1, 0], [0, 1, 1, 1, 0], [0, 0, 0, 0, 0]]\<rparr>\<rparr>) \<and>
   run_until \<lparr>time = 3, board = \<lparr>data = IntArr (pad2 0 1 glider)\<rparr>\<rparr> (- 2) =
     (Inr \<lparr>data = IntArr (pad2 0 1 glider)\<rparr>, \<lparr>time = 3, board = \<lparr>data = IntArr (pad2 0 1 glider)\<rparr>\<rparr>)"
proof -
  let ?X = "IntArr (pad2 0 1 glider)"
  let ?Y = "IntArr [[0, 0, 0, 0, 0], [0, 0, 1, 0, 0], [0, 0, 0, 1, 0], [0, 1, 1, 1, 0], [0, 0, 0, 0, 0]]"
  let ?s = "\<lparr>time = 3, board = \<lparr>data = ?X\<rparr>\<rparr>"
  have st: "steps (nat (4 - 3)) ?X = Inr ?Y" by code_simp
  from run_until_spec[of ?s 4] obtain B where
    B: "steps (nat (4 - 3)) ?X = Inr B"
       "run_until ?s 4 = (Inr \<lparr>data = B\<rparr>, ?s\<lparr>board := (board ?s)\<lparr>data := B\<rparr>, time := 4\<rparr>)"
    by auto
  from B(1) st have "B = ?Y" by simp
  with B(2) have r4: "run_until ?s 4 = (Inr \<lparr>data = ?Y\<rparr>, \<lparr>time = 4, board = \<lparr>data = ?Y\<rparr>\<rparr>)"
    by simp
  from run_until_spec[of ?s "- 2"] have "run_until ?s (- 2) = (Inr \<lparr>data = ?X\<rparr>, ?s)"
    by simp
  with st r4 show ?thesis by simp
qed

text \<open>
  Claim C5. The step preserves the shape: for every 2-D boolean or integer array \<open>X\<close>,
  \<^verbatim>\<open>single_step(X)\<close> returns a 2-D array with the dimensions of \<open>X\<close>; and the board of a
  simulator keeps its rectangular shape across every call of \<^verbatim>\<open>step\<close> and
  \<^verbatim>\<open>run_until\<close>.
\<close>

theorem shape_preserved:
  "(ndim2 X \<and> dtype_of X \<noteq> np_float64 \<longrightarrow>
      (\<exists>Y. single_step X = Inr Y \<and> ndim2 Y \<and> shape Y = shape X))
   \<and> (ndim2 (data (board self)) \<longrightarrow>
        ndim2 (data (board (snd (step self)))) \<and>
        shape (data (board (snd (step self)))) = shape (data (board self)) \<and>
        ndim2 (data (board (snd (run_until self t)))) \<and>
        shape (data (board (snd (run_until self t)))) = shape (data (board self)))"
proof -
  have "\<exists>Y. single_step X = Inr Y \<and> ndim2 Y \<and> shape Y = shape X"
    if "ndim2 X" "dtype_of X \<noteq> np_float64"
  proof -
    from single_step_dtype[OF that(2)] obtain Y where "single_step X = Inr Y" by blast
    with single_step_shape[OF that(1) this] show ?thesis by simp
  qed
  then show ?thesis
    using step_shape[of self] run_until_shape[of self t] by blast
qed

theorem shape_preserved_witness:
  "ndim2 (IntArr (pad2 0 1 glider)) \<and> dtype_of (IntArr (pad2 0 1 glider)) \<noteq> np_float64 \<and>
   shape (IntArr (pad2 0 1 glider)) = (5, 5) \<and>
   (\<exists>Y. single_step (IntArr (pad2 0 1 glider)) = Inr Y \<and> ndim2 Y \<and> shape Y = (5, 5)) \<and>
   shape (data (board (snd (step \<lparr>time = 0, board = \<lparr>data = IntArr (pad2 0 1 glider)\<rparr>\<rparr>)))) = (5, 5) \<and>
   shape (data (board (snd (run_until \<lparr>time = 0, board = \<lparr>data = IntArr (pad2 0 1 glider)\<rparr>\<rparr> 7)))) = (5, 5)"
proof -
  let ?X = "IntArr (pad2 0 1 glider)"
  let ?s = "\<lparr>time = 0, board = \<lparr>data = ?X\<rparr>\<rparr>"
  have h: "ndim2 ?X" "dtype_of ?X \<noteq> np_float64" "shape ?X = (5, 5)" by code_simp+
  from shape_preserved[of ?X ?s 7] h show ?thesis by simp
qed

text \<open>
  Claim C9. The transition is deterministic and independent of the history: two
  simulators whose boards hold equal grids, whatever their time counters, get equal
  results and equal next boards from \<^verbatim>\<open>step\<close>; and \<^verbatim>\<open>single_step\<close> applied to equal
  grids gives equal results.
\<close>

theorem step_history_independent:
  "(data (board s1) = data (board s2) \<longrightarrow>
      fst (step s1) = fst (step s2) \<and> data (board (snd (step s1))) = data (board (snd (step s2))))
   \<and> (X = Y \<longrightarrow> single_step X = single_step Y)"
  by (auto simp: step_def split: sum.splits)

theorem step_history_independent_witness:
  "data (board \<lparr>time = 0, board = \<lparr>data = IntArr (pad2 0 1 glider)\<rparr>\<rparr>)
     = data (board \<lparr>time = 41, board = \<lparr>data = IntArr (pad2 0 1 glider)\<rparr>\<rparr>) \<and>
   fst (step \<lparr>time = 0, board = \<lparr>data = IntArr (pad2 0 1 glider)\<rparr>\<rparr>)
     = fst (step \<lparr>time = 41, board = \<lparr>data = IntArr (pad2 0 1 glider)\<rparr>\<rparr>) \<and>
   data (board (snd (step \<lparr>time = 0, board = \<lparr>data = IntArr (pad2 0 1 glider)\<rparr>\<rparr>)))
     = data (board (snd (step \<lparr>time = 41, board = \<lparr>data = IntArr (pad2 0 1 glider)\<rparr>\<rparr>))) \<and>
   single_step (IntArr (pad2 0 1 glider)) = single_step (IntArr (pad2 0 1 glider))"
  using step_history_independent[of "\<lparr>time = 0, board = \<lparr>data = IntArr (pad2 0 1 glider)\<rparr>\<rparr>"
      "\<lparr>time = 41, board = \<lparr>data = IntArr (pad2 0 1 glider)\<rparr>\<rparr>" "IntArr (pad2 0 1 glider)"
      "IntArr (pad2 0 1 glider)"]
  by simp

text \<open>
  Claim C10. A negative time is not validated: for every negative \<open>t\<close>, \<^verbatim>\<open>run_until(t)\<close>
  on a simulator whose time counter is at least \<open>t\<close> (every counter that started at 0)
  returns the current board and changes nothing; and whenever \<^verbatim>\<open>run_until(t)\<close> raises
  for a negative \<open>t\<close>, the error is the \<^verbatim>\<open>TypeError\<close> that the array library's \<^verbatim>\<open>&\<close>
  raises on the board, never an error of the simulator's own.
\<close>

theorem run_until_negative_time:
  assumes "t < 0"
  shows "(t \<le> time self \<longrightarrow> run_until self t = (Inr \<lparr>data = data (board self)\<rparr>, self))
    \<and> (\<forall>e. fst (run_until self t) = Inl e \<longrightarrow>
          e = TypeError \<and> (\<exists>B. np_and (data (board self)) B = Inl e) \<and> time self < t)"
proof -
  have "e = TypeError \<and> (\<exists>B. np_and (data (board self)) B = Inl e) \<and> time self < t"
    if "fst (run_until self t) = Inl e" for e
  proof -
    from run_until_error[OF that]
    have e: "e = TypeError" "dtype_of (data (board self)) = np_float64" "time self < t"
      by simp_all
    from e(2) obtain A where "data (board self) = FloatArr A"
      by (cases "data (board self)") simp_all
    then have "np_and (data (board self)) [] = Inl e" using e(1) by simp
    then show ?thesis using e by blast
  qed
  then show ?thesis using run_until_past[of t self] by blast
qed

theorem run_until_negative_time_witness:
  "(- 3 :: int) < 0 \<and>
   - 3 \<le> time \<lparr>time = 0, board = \<lparr>data = IntArr (pad2 0 1 glider)\<rparr>\<rparr> \<and>
   run_until \<lparr>time = 0, board = \<lparr>data = IntArr (pad2 0 1 glider)\<rparr>\<rparr> (- 3) =
     (Inr \<lparr>data = IntArr (pad2 0 1 glider)\<rparr>, \<lparr>time = 0, board = \<lparr>data = IntArr (pad2 0 1 glider)\<rparr>\<rparr>) \<and>
   fst (run_until \<lparr>time = - 9, board = \<lparr>data = FloatArr [[1 / 2]]\<rparr>\<rparr> (- 3)) = Inl TypeError \<and>
   np_and (FloatArr [[1 / 2]]) [[False]] = Inl TypeError"
proof -
  have neg: "(- 3 :: int) < 0" by simp
  have "run_until \<lparr>time = 0, board = \<lparr>data = IntArr (pad2 0 1 glider)\<rparr>\<rparr> (- 3) =
     (Inr \<lparr>data = IntArr (pad2 0 1 glider)\<rparr>, \<lparr>time = 0, board = \<lparr>data = IntArr (pad2 0 1 glider)\<rparr>\<rparr>)"
    using run_until_negative_time[OF neg, of "\<lparr>time = 0, board = \<lparr>data = IntArr (pad2 0 1 glider)\<rparr>\<rparr>"]
    by simp
  moreover have "fst (run_until \<lparr>time = - 9, board = \<lparr>data = FloatArr [[1 / 2]]\<rparr>\<rparr> (- 3)) = Inl TypeError"
    by code_simp
  ultimately show ?thesis by simp
qed

section \<open>The all-dead grid and the glider\<close>

lemma replicate_tabulate2: "replicate m (replicate n z) = tabulate2 m n (\<lambda>i j. z)"
  by (simp add: tabulate2_def map_replicate_const)

lemma live_nbrs_dead:
  assumes "i < fst (shape X)" "j < snd (shape X)"
    and dead: "\<And>a b. a < fst (shape X) \<Longrightarrow> b < snd (shape X) \<Longrightarrow> \<not> live X a b"
  shows "live_nbrs X i j = 0"
proof -
  have "\<not> live X (torus (fst (shape X)) a) (torus (snd (shape X)) b)" for a b
    using assms(1,2) by (intro dead torus_less) auto
  then show ?thesis
    by (simp add: live_nbrs_def split_def)
qed

lemma conway_next_dead:
  assumes "i < fst (shape X)" "j < snd (shape X)"
    and dead: "\<And>a b. a < fst (shape X) \<Longrightarrow> b < snd (shape X) \<Longrightarrow> \<not> live X a b"
  shows "\<not> conway_next X i j"
  using live_nbrs_dead[OF assms] by (simp add: conway_next_def)

lemma single_step_zeros_int:
  "single_step (IntArr (tabulate2 m n (\<lambda>i j. 0))) = Inr (IntArr (tabulate2 m n (\<lambda>i j. 0)))"
proof -
  let ?Z = "tabulate2 m n (\<lambda>i j. 0::int)"
  have nc: "ncols ?Z = n" if "0 < m" using that by (simp add: ncols_tabulate2)
  have "tabulate2 (nrows ?Z) (ncols ?Z) (\<lambda>i j. of_bool (conway_next (IntArr ?Z) i j)) = ?Z"
  proof (cases "m = 0")
    case True
    then show ?thesis by (simp add: tabulate2_def nrows_def)
  next
    case False
    then have [simp]: "ncols ?Z = n" by (simp add: ncols_tabulate2)
    have "\<not> conway_next (IntArr ?Z) i j" if "i < m" "j < n" for i j
      using that by (intro conway_next_dead) simp_all
    then show ?thesis
      by (auto intro: tabulate2_cong)
  qed
  moreover have "is_2d ?Z" "binary ?Z"
    by (simp_all add: binary_tabulate2)
  ultimately show ?thesis
    by (simp add: single_step_IntArr_conway)
qed

lemma single_step_zeros_bool:
  "single_step (BoolArr (tabulate2 m n (\<lambda>i j. False))) = Inr (BoolArr (tabulate2 m n (\<lambda>i j. False)))"
proof -
  let ?Z = "tabulate2 m n (\<lambda>i j. False)"
  have "tabulate2 (nrows ?Z) (ncols ?Z) (conway_next (BoolArr ?Z)) = ?Z"
  proof (cases "m = 0")
    case True
    then show ?thesis by (simp add: tabulate2_def nrows_def)
  next
    case False
    then have [simp]: "ncols ?Z = n" by (simp add: ncols_tabulate2)
    have "\<not> conway_next (BoolArr ?Z) i j" if "i < m" "j < n" for i j
      using that by (intro conway_next_dead) simp_all
    then show ?thesis
      by (auto intro: tabulate2_cong)
  qed
  moreover have "is_2d ?Z" by simp
  ultimately show ?thesis
    by (simp add: single_step_BoolArr_conway)
qed

text \<open>
  Claim C6. For every shape \<open>(m, n)\<close>, the all-dead grid (all zeros, or all \<^verbatim>\<open>False\<close>) is
  a fixed point of \<^verbatim>\<open>single_step\<close>.
\<close>

theorem all_dead_fixed_point:
  "single_step (IntArr (replicate m (replicate n 0))) = Inr (IntArr (replicate m (replicate n 0)))
   \<and> single_step (BoolArr (replicate m (replicate n False)))
       = Inr (BoolArr (replicate m (replicate n False)))"
  by (simp add: replicate_tabulate2 single_step_zeros_int single_step_zeros_bool)

text \<open>
  Claim C4. The glider \<open>[[1,0,0],[0,1,1],[1,1,0]]\<close> padded with 5 cells of zeros on every
  side is a 13 by 13 board whose last row and column are dead; four applications of
  \<^verbatim>\<open>single_step\<close> yield exactly that board moved one row down and one column to the
  right, every other cell dead.
\<close>

theorem glider_four_steps:
  "np_pad (IntArr glider) 5 = Inr (IntArr (pad2 0 5 glider))
   \<and> shape (IntArr (pad2 0 5 glider)) = (13, 13)
   \<and> list_all (\<lambda>x. x = 0) (last (pad2 0 5 glider))
   \<and> list_all (\<lambda>r. last r = 0) (pad2 0 5 glider)
   \<and> steps 4 (IntArr (pad2 0 5 glider)) = Inr (IntArr (moved_down_right (pad2 0 5 glider)))"
  by code_simp

section \<open>Rotation and reflection\<close>

lemma wrap_index_less: "i < N \<Longrightarrow> d \<in> {-1, 0, 1} \<Longrightarrow> wrap_index N (int i + d) < N"
  by (simp add: wrap_index_torus torus_less)

lemma wrap_index_reflect:
  "i < N \<Longrightarrow> d \<in> {-1, 0, 1} \<Longrightarrow>
   N - 1 - wrap_index N (int i + d) = wrap_index N (int (N - 1 - i) + - d)"
  unfolding wrap_index_def by auto

lemma nbr_sum_eqI:
  assumes "\<And>di dj. di \<in> {-1, 0, 1} \<Longrightarrow> dj \<in> {-1, 0, 1} \<Longrightarrow>
     B ! wrap_index (nrows B) (int i + di) ! wrap_index (ncols B) (int j + dj) = g di dj"
  shows "nbr_sum B i j = (\<Sum>(di, dj)\<leftarrow>offsets8. g di dj)"
proof -
  have "map (\<lambda>(di, dj). B ! wrap_index (nrows B) (int i + di) ! wrap_index (ncols B) (int j + dj)) offsets8
      = map (\<lambda>(di, dj). g di dj) offsets8"
  proof (rule map_cong[OF refl])
    fix x assume x: "x \<in> set offsets8"
    obtain di dj where xd: "x = (di, dj)" by (cases x)
    with x have "di \<in> {-1, 0, 1}" "dj \<in> {-1, 0, 1}"
      using set_offsets8[of di dj] by simp_all
    from assms[OF this] show "(case x of (di, dj) \<Rightarrow>
          B ! wrap_index (nrows B) (int i + di) ! wrap_index (ncols B) (int j + dj))
        = (case x of (di, dj) \<Rightarrow> g di dj)"
      by (simp add: xd)
  qed
  then show ?thesis
    unfolding nbr_sum_def by (rule arg_cong)
qed

lemma sum_offsets8_lr:
  "(\<Sum>(di, dj)\<leftarrow>offsets8. (g :: int \<Rightarrow> int \<Rightarrow> real) di (- dj)) = (\<Sum>(di, dj)\<leftarrow>offsets8. g di dj)"
  by (simp add: offsets8_def)

lemma sum_offsets8_ud:
  "(\<Sum>(di, dj)\<leftarrow>offsets8. (g :: int \<Rightarrow> int \<Rightarrow> real) (- di) dj) = (\<Sum>(di, dj)\<leftarrow>offsets8. g di dj)"
  by (simp add: offsets8_def)

lemma sum_offsets8_rot:
  "(\<Sum>(di, dj)\<leftarrow>offsets8. (g :: int \<Rightarrow> int \<Rightarrow> real) dj (- di)) = (\<Sum>(di, dj)\<leftarrow>offsets8. g di dj)"
  by (simp add: offsets8_def)

lemma map_by_index: "map f xs = map (\<lambda>i. f (xs ! i)) [0..<length xs]"
  by (rule nth_equalityI) simp_all

lemma fliplr_tabulate2:
  assumes "is_2d A"
  shows "fliplr A = tabulate2 (nrows A) (ncols A) (\<lambda>i j. A ! i ! (ncols A - 1 - j))"
proof -
  have row: "rev (A ! i) = map (\<lambda>j. A ! i ! (ncols A - 1 - j)) [0..<ncols A]" if "i < nrows A" for i
  proof -
    have "length (A ! i) = ncols A" using assms that by (rule is_2d_row)
    then show ?thesis
      by (intro nth_equalityI) (simp_all add: rev_nth)
  qed
  have "fliplr A = map (\<lambda>i. rev (A ! i)) [0..<length A]"
    unfolding fliplr_def by (rule map_by_index)
  also have "\<dots> = map (\<lambda>i. map (\<lambda>j. A ! i ! (ncols A - 1 - j)) [0..<ncols A]) [0..<length A]"
    by (rule map_cong[OF refl]) (simp add: row nrows_def)
  finally show ?thesis
    by (simp add: tabulate2_def nrows_def)
qed

lemma flipud_tabulate2:
  assumes "is_2d A"
  shows "flipud A = tabulate2 (nrows A) (ncols A) (\<lambda>i j. A ! (nrows A - 1 - i) ! j)"
proof -
  have row: "rev A ! i = map (\<lambda>j. A ! (nrows A - 1 - i) ! j) [0..<ncols A]" if "i < nrows A" for i
  proof -
    have len: "length (A ! (nrows A - 1 - i)) = ncols A"
      using assms that by (intro is_2d_row) auto
    have "rev A ! i = A ! (nrows A - 1 - i)"
      using that by (simp add: rev_nth nrows_def)
    also have "\<dots> = map (\<lambda>j. A ! (nrows A - 1 - i) ! j) [0..<ncols A]"
      unfolding len[symmetric] by (rule map_nth[symmetric])
    finally show ?thesis .
  qed
  have "flipud A = map (\<lambda>i. rev A ! i) [0..<length (rev A)]"
    unfolding flipud_def by (rule map_nth[symmetric])
  also have "\<dots> = map (\<lambda>i. map (\<lambda>j. A ! (nrows A - 1 - i) ! j) [0..<ncols A]) [0..<length (rev A)]"
    by (rule map_cong[OF refl]) (simp add: row nrows_def)
  finally show ?thesis
    by (simp add: tabulate2_def nrows_def)
qed

lemma nbr_sum_fliplr:
  fixes R :: "real list list"
  assumes "i < nrows R" "j < ncols R"
  shows "nbr_sum (tabulate2 (nrows R) (ncols R) (\<lambda>i j. R ! i ! (ncols R - 1 - j))) i j
       = nbr_sum R i (ncols R - 1 - j)"
proof -
  let ?m = "nrows R" and ?n = "ncols R"
  let ?B = "tabulate2 ?m ?n (\<lambda>i j. R ! i ! (?n - 1 - j))"
  let ?g = "\<lambda>a b. R ! wrap_index ?m (int i + a) ! wrap_index ?n (int (?n - 1 - j) + b)"
  have sh: "nrows ?B = ?m" "ncols ?B = ?n"
    using assms by (simp_all add: ncols_tabulate2)
  have "nbr_sum ?B i j = (\<Sum>(di, dj)\<leftarrow>offsets8. ?g di (- dj))"
  proof (rule nbr_sum_eqI)
    fix di dj :: int assume d: "di \<in> {-1, 0, 1}" "dj \<in> {-1, 0, 1}"
    have "wrap_index ?m (int i + di) < ?m" "wrap_index ?n (int j + dj) < ?n"
      using assms d by (simp_all add: wrap_index_less)
    then show "?B ! wrap_index (nrows ?B) (int i + di) ! wrap_index (ncols ?B) (int j + dj) = ?g di (- dj)"
      unfolding sh using wrap_index_reflect[OF assms(2) d(2)] by simp
  qed
  also have "\<dots> = (\<Sum>(di, dj)\<leftarrow>offsets8. ?g di dj)"
    by (rule sum_offsets8_lr)
  also have "\<dots> = nbr_sum R i (?n - 1 - j)"
    by (simp add: nbr_sum_def)
  finally show ?thesis .
qed

lemma nbr_sum_flipud:
  fixes R :: "real list list"
  assumes "i < nrows R" "j < ncols R"
  shows "nbr_sum (tabulate2 (nrows R) (ncols R) (\<lambda>i j. R ! (nrows R - 1 - i) ! j)) i j
       = nbr_sum R (nrows R - 1 - i) j"
proof -
  let ?m = "nrows R" and ?n = "ncols R"
  let ?B = "tabulate2 ?m ?n (\<lambda>i j. R ! (?m - 1 - i) ! j)"
  let ?g = "\<lambda>a b. R ! wrap_index ?m (int (?m - 1 - i) + a) ! wrap_index ?n (int j + b)"
  have sh: "nrows ?B = ?m" "ncols ?B = ?n"
    using assms by (simp_all add: ncols_tabulate2)
  have "nbr_sum ?B i j = (\<Sum>(di, dj)\<leftarrow>offsets8. ?g (- di) dj)"
  proof (rule nbr_sum_eqI)
    fix di dj :: int assume d: "di \<in> {-1, 0, 1}" "dj \<in> {-1, 0, 1}"
    have "wrap_index ?m (int i + di) < ?m" "wrap_index ?n (int j + dj) < ?n"
      using assms d by (simp_all add: wrap_index_less)
    then show "?B ! wrap_index (nrows ?B) (int i + di) ! wrap_index (ncols ?B) (int j + dj) = ?g (- di) dj"
      unfolding sh using wrap_index_reflect[OF assms(1) d(1)] by simp
  qed
  also have "\<dots> = (\<Sum>(di, dj)\<leftarrow>offsets8. ?g di dj)"
    by (rule sum_offsets8_ud)
  also have "\<dots> = nbr_sum R (?m - 1 - i) j"
    by (simp add: nbr_sum_def)
  finally show ?thesis .
qed

lemma nbr_sum_rot90:
  fixes R :: "real list list"
  assumes "i < ncols R" "j < nrows R"
  shows "nbr_sum (tabulate2 (ncols R) (nrows R) (\<lambda>i j. R ! j ! (ncols R - 1 - i))) i j
       = nbr_sum R j (ncols R - 1 - i)"
proof -
  let ?m = "nrows R" and ?n = "ncols R"
  let ?B = "tabulate2 ?n ?m (\<lambda>i j. R ! j ! (?n - 1 - i))"
  let ?g = "\<lambda>a b. R ! wrap_index ?m (int j + a) ! wrap_index ?n (int (?n - 1 - i) + b)"
  have sh: "nrows ?B = ?n" "ncols ?B = ?m"
    using assms by (simp_all add: ncols_tabulate2)
  have "nbr_sum ?B i j = (\<Sum>(di, dj)\<leftarrow>offsets8. ?g dj (- di))"
  proof (rule nbr_sum_eqI)
    fix di dj :: int assume d: "di \<in> {-1, 0, 1}" "dj \<in> {-1, 0, 1}"
    have "wrap_index ?n (int i + di) < ?n" "wrap_index ?m (int j + dj) < ?m"
      using assms d by (simp_all add: wrap_index_less)
    then show "?B ! wrap_index (nrows ?B) (int i + di) ! wrap_index (ncols ?B) (int j + dj) = ?g dj (- di)"
      unfolding sh using wrap_index_reflect[OF assms(1) d(1)] by simp
  qed
  also have "\<dots> = (\<Sum>(di, dj)\<leftarrow>offsets8. ?g di dj)"
    by (rule sum_offsets8_rot)
  also have "\<dots> = nbr_sum R j (?n - 1 - i)"
    by (simp add: nbr_sum_def)
  finally show ?thesis .
qed

text \<open>
  The table of next cells, \<open>f\<close> combining the neighbour sum with the cell, commutes with
  every re-indexing of the grid that the neighbour sums respect.
\<close>

lemma step_cells_reindex:
  fixes A :: "'a list list" and c :: "'a \<Rightarrow> real" and f :: "real \<Rightarrow> 'a \<Rightarrow> 'a"
  assumes A: "is_2d A"
    and rng: "\<And>i j. i < m' \<Longrightarrow> j < n' \<Longrightarrow> ri i j < nrows A \<and> ci i j < ncols A"
    and nb: "\<And>(R :: real list list) i j. nrows R = nrows A \<Longrightarrow> ncols R = ncols A \<Longrightarrow>
       i < m' \<Longrightarrow> j < n' \<Longrightarrow>
       nbr_sum (tabulate2 m' n' (\<lambda>i j. R ! ri i j ! ci i j)) i j = nbr_sum R (ri i j) (ci i j)"
  shows "tabulate2 (nrows (tabulate2 m' n' (\<lambda>i j. A ! ri i j ! ci i j)))
            (ncols (tabulate2 m' n' (\<lambda>i j. A ! ri i j ! ci i j)))
            (\<lambda>i j. f (nbr_sum (map (map c) (tabulate2 m' n' (\<lambda>i j. A ! ri i j ! ci i j))) i j)
                     (tabulate2 m' n' (\<lambda>i j. A ! ri i j ! ci i j) ! i ! j))
       = tabulate2 m' n' (\<lambda>i j.
           tabulate2 (nrows A) (ncols A) (\<lambda>i j. f (nbr_sum (map (map c) A) i j) (A ! i ! j))
             ! ri i j ! ci i j)"
proof (cases "m' = 0")
  case True
  then show ?thesis by (simp add: tabulate2_def nrows_def)
next
  case False
  let ?B = "tabulate2 m' n' (\<lambda>i j. A ! ri i j ! ci i j)"
  have sh: "nrows ?B = m'" "ncols ?B = n'"
    using False by (simp_all add: ncols_tabulate2)
  have cB: "map (map c) ?B = tabulate2 m' n' (\<lambda>i j. map (map c) A ! ri i j ! ci i j)"
    unfolding map_map_tabulate2
  proof (rule tabulate2_cong)
    fix i j assume ij: "i < m'" "j < n'"
    from rng[OF ij] have r: "ri i j < nrows A" "ci i j < ncols A" by simp_all
    then have "ci i j < length (A ! ri i j)"
      using A by (simp add: is_2d_row)
    then show "c (A ! ri i j ! ci i j) = map (map c) A ! ri i j ! ci i j"
      using r(1) by (simp add: nrows_def)
  qed
  show ?thesis
    unfolding sh
  proof (rule tabulate2_cong)
    fix i j assume ij: "i < m'" "j < n'"
    from rng[OF ij] have r: "ri i j < nrows A" "ci i j < ncols A" by simp_all
    have "nbr_sum (map (map c) ?B) i j = nbr_sum (map (map c) A) (ri i j) (ci i j)"
      unfolding cB using ij by (intro nb) simp_all
    then show "f (nbr_sum (map (map c) ?B) i j) (?B ! i ! j)
        = tabulate2 (nrows A) (ncols A) (\<lambda>i j. f (nbr_sum (map (map c) A) i j) (A ! i ! j))
            ! ri i j ! ci i j"
      using ij r by simp
  qed
qed

lemma single_step_BoolArr_table:
  "is_2d A \<Longrightarrow>
   single_step (BoolArr A) = Inr (BoolArr (step_table (\<lambda>s x. s = 3 \<or> (x \<and> s = 2)) of_bool A))"
  by (simp add: single_step_BoolArr step_table_def)

lemma single_step_IntArr_table:
  "is_2d A \<Longrightarrow>
   single_step (IntArr A) =
     Inr (IntArr (step_table (\<lambda>s x. of_bool (s = 3) OR (x AND of_bool (s = 2))) of_int A))"
  by (simp add: single_step_IntArr step_table_def)

lemma shape_step_table [simp]:
  "nrows (step_table f c A) = nrows A" "ncols (step_table f c A) = ncols A"
  "is_2d (step_table f c A)"
  by (simp_all add: step_table_def ncols_tabulate2 ncols_0)

lemma step_table_fliplr:
  assumes "is_2d A"
  shows "step_table f c (fliplr A) = fliplr (step_table f c A)"
proof -
  let ?m = "nrows A" and ?n = "ncols A"
  have "step_table f c (fliplr A)
      = tabulate2 ?m ?n (\<lambda>i j. step_table f c A ! i ! (?n - 1 - j))"
    unfolding fliplr_tabulate2[OF assms] step_table_def
  proof (rule step_cells_reindex[OF assms])
    fix i j assume "i < ?m" "j < ?n"
    then show "i < ?m \<and> ?n - 1 - j < ?n" by simp
  next
    fix R :: "real list list" and i j
    assume "nrows R = ?m" "ncols R = ?n" "i < ?m" "j < ?n"
    then show "nbr_sum (tabulate2 ?m ?n (\<lambda>i j. R ! i ! (?n - 1 - j))) i j = nbr_sum R i (?n - 1 - j)"
      using nbr_sum_fliplr[of i R j] by simp
  qed
  also have "\<dots> = fliplr (step_table f c A)"
    by (simp add: fliplr_tabulate2)
  finally show ?thesis .
qed

lemma step_table_flipud:
  assumes "is_2d A"
  shows "step_table f c (flipud A) = flipud (step_table f c A)"
proof -
  let ?m = "nrows A" and ?n = "ncols A"
  have "step_table f c (flipud A)
      = tabulate2 ?m ?n (\<lambda>i j. step_table f c A ! (?m - 1 - i) ! j)"
    unfolding flipud_tabulate2[OF assms] step_table_def
  proof (rule step_cells_reindex[OF assms])
    fix i j assume "i < ?m" "j < ?n"
    then show "?m - 1 - i < ?m \<and> j < ?n" by simp
  next
    fix R :: "real list list" and i j
    assume "nrows R = ?m" "ncols R = ?n" "i < ?m" "j < ?n"
    then show "nbr_sum (tabulate2 ?m ?n (\<lambda>i j. R ! (?m - 1 - i) ! j)) i j = nbr_sum R (?m - 1 - i) j"
      using nbr_sum_flipud[of i R j] by simp
  qed
  also have "\<dots> = flipud (step_table f c A)"
    by (simp add: flipud_tabulate2)
  finally show ?thesis .
qed

lemma step_table_rot90:
  assumes "is_2d A"
  shows "step_table f c (rot90 A) = rot90 (step_table f c A)"
proof -
  let ?m = "nrows A" and ?n = "ncols A"
  have "step_table f c (rot90 A)
      = tabulate2 ?n ?m (\<lambda>i j. step_table f c A ! j ! (?n - 1 - i))"
    unfolding rot90_def step_table_def
  proof (rule step_cells_reindex[OF assms])
    fix i j assume "i < ?n" "j < ?m"
    then show "j < ?m \<and> ?n - 1 - i < ?n" by simp
  next
    fix R :: "real list list" and i j
    assume "nrows R = ?m" "ncols R = ?n" "i < ?n" "j < ?m"
    then show "nbr_sum (tabulate2 ?n ?m (\<lambda>i j. R ! j ! (?n - 1 - i))) i j = nbr_sum R j (?n - 1 - i)"
      using nbr_sum_rot90[of i R j] by simp
  qed
  also have "\<dots> = rot90 (step_table f c A)"
    by (simp add: rot90_def)
  finally show ?thesis .
qed

lemma is_2d_flips [simp]: "is_2d (rot90 A)" "is_2d A \<Longrightarrow> is_2d (fliplr A)" "is_2d A \<Longrightarrow> is_2d (flipud A)"
  by (simp_all add: rot90_def fliplr_tabulate2 flipud_tabulate2)

text \<open>
  Claim C7. The rule is invariant under rotation and reflection: for every square grid
  \<open>X\<close>, \<^verbatim>\<open>single_step\<close> of the grid rotated by a quarter turn is the quarter-turn
  rotation of \<^verbatim>\<open>single_step(X)\<close>; and for every grid \<open>X\<close>, \<^verbatim>\<open>single_step\<close> of the
  left-right or up-down reflection of \<open>X\<close> is the same reflection of \<^verbatim>\<open>single_step(X)\<close>.
\<close>

theorem single_step_symmetric:
  assumes "is_grid X"
  shows "\<exists>Y. single_step X = Inr Y
    \<and> (fst (shape X) = snd (shape X) \<longrightarrow> single_step (np_rot90 X) = Inr (np_rot90 Y))
    \<and> single_step (np_fliplr X) = Inr (np_fliplr Y)
    \<and> single_step (np_flipud X) = Inr (np_flipud Y)"
proof (cases X)
  case (BoolArr A)
  with assms have "is_2d A" by simp
  then show ?thesis
    unfolding BoolArr
    by (simp add: single_step_BoolArr_table step_table_rot90 step_table_fliplr step_table_flipud)
next
  case (IntArr A)
  with assms have "is_2d A" by simp
  then show ?thesis
    unfolding IntArr
    by (simp add: single_step_IntArr_table step_table_rot90 step_table_fliplr step_table_flipud)
next
  case (FloatArr A)
  with assms show ?thesis by simp
qed

theorem single_step_symmetric_witness:
  "is_grid (IntArr (pad2 0 1 glider)) \<and>
   fst (shape (IntArr (pad2 0 1 glider))) = snd (shape (IntArr (pad2 0 1 glider))) \<and>
   single_step (IntArr (pad2 0 1 glider)) =
     Inr (IntArr [[0, 0, 0, 0, 0], [0, 0, 1, 0, 0], [0, 0, 0, 1, 0], [0, 1, 1, 1, 0], [0, 0, 0, 0, 0]]) \<and>
   single_step (np_rot90 (IntArr (pad2 0 1 glider))) =
     Inr (np_rot90 (IntArr [[0, 0, 0, 0, 0], [0, 0, 1, 0, 0], [0, 0, 0, 1, 0], [0, 1, 1, 1, 0], [0, 0, 0, 0, 0]])) \<and>
   single_step (np_fliplr (IntArr (pad2 0 1 glider))) =
     Inr (np_fliplr (IntArr [[0, 0, 0, 0, 0], [0, 0, 1, 0, 0], [0, 0, 0, 1, 0], [0, 1, 1, 1, 0], [0, 0, 0, 0, 0]])) \<and>
   single_step (np_flipud (IntArr (pad2 0 1 glider))) =
     Inr (np_flipud (IntArr [[0, 0, 0, 0, 0], [0, 0, 1, 0, 0], [0, 0, 0, 1, 0], [0, 1, 1, 1, 0], [0, 0, 0, 0, 0]]))"
proof -
  let ?X = "IntArr (pad2 0 1 glider)"
  let ?Y = "IntArr [[0, 0, 0, 0, 0], [0, 0, 1, 0, 0], [0, 0, 0, 1, 0], [0, 1, 1, 1, 0], [0, 0, 0, 0, 0]]"
  have g: "is_grid ?X" by code_simp
  have sq: "fst (shape ?X) = snd (shape ?X)" by code_simp
  have st: "single_step ?X = Inr ?Y" by code_simp
  from single_step_symmetric[OF g] g sq st show ?thesis by auto
qed

section \<open>Construction of the simulator\<close>

lemma nrows_pad2: "nrows (pad2 z p A) = p + nrows A + p"
  by (simp add: pad2_def nrows_def Let_def)

lemma pad2_row:
  assumes "i < p + nrows A + p"
  shows "pad2 z p A ! i =
     (if p \<le> i \<and> i < p + nrows A then replicate p z @ A ! (i - p) @ replicate p z
      else replicate (p + ncols A + p) z)"
  using assms by (auto simp: pad2_def Let_def nth_append nrows_def)

lemma padded_row:
  assumes "is_2d A" "i < p + nrows A + p"
  shows "padded z p A ! i =
     (if p \<le> i \<and> i < p + nrows A then replicate p z @ A ! (i - p) @ replicate p z
      else replicate (p + ncols A + p) z)"
proof (cases "p \<le> i \<and> i < p + nrows A")
  case True
  then have len: "length (A ! (i - p)) = ncols A"
    using assms(1) by (intro is_2d_row) auto
  have "map (\<lambda>j. if p \<le> j \<and> j < p + ncols A then A ! (i - p) ! (j - p) else z) [0..<p + ncols A + p]
      = replicate p z @ A ! (i - p) @ replicate p z"
    using len by (auto simp: list_eq_iff_nth_eq nth_append)
  then show ?thesis
    using True assms(2) by (simp add: padded_def nth_tabulate2_row)
next
  case False
  have "map (\<lambda>j. z) [0..<p + ncols A + p] = replicate (p + ncols A + p) z"
    by (simp add: map_replicate_const)
  then show ?thesis
    using False assms(2) by (auto simp: padded_def nth_tabulate2_row)
qed

lemma pad2_padded:
  assumes "is_2d A"
  shows "pad2 z p A = padded z p A"
proof (rule nth_equalityI)
  show "length (pad2 z p A) = length (padded z p A)"
    using nrows_pad2[of z p A] by (simp add: padded_def nrows_def)
next
  fix i assume "i < length (pad2 z p A)"
  then have "i < p + nrows A + p"
    using nrows_pad2[of z p A] by (simp add: nrows_def)
  then show "pad2 z p A ! i = padded z p A ! i"
    by (simp only: pad2_row padded_row[OF assms])
qed

lemma np_pad_padded:
  "ndim2 X \<Longrightarrow> 0 \<le> p \<Longrightarrow> np_pad X p = Inr (padded_array (nat p) X)"
  by (cases X) (simp_all add: pad2_padded)

lemma after_steps_ok:
  assumes "dtype_of (data (board self)) \<noteq> np_float64"
  shows "dtype_of (data (board (after_steps n self))) = dtype_of (data (board self))
       \<and> time (after_steps n self) = time self + int n"
proof (induction n)
  case 0
  then show ?case by simp
next
  case (Suc n)
  then have "dtype_of (data (board (after_steps n self))) \<noteq> np_float64"
    using assms by simp
  from single_step_dtype[OF this] obtain d
    where "single_step (data (board (after_steps n self))) = Inr d"
      "dtype_of d = dtype_of (data (board (after_steps n self)))"
    by blast
  then show ?case
    using Suc by (simp add: step_ok)
qed

text \<open>
  Claim C2. For every seed pattern \<open>P\<close> (a 2-D array) and padding \<open>p \<ge> 0\<close>, constructing
  \<^verbatim>\<open>GameOfLifeSimple(pattern=P, padding=p)\<close> sets the time counter to 0 and the board to
  \<open>P\<close> padded on every side with \<open>p\<close> rows and columns of dead cells; and when \<open>P\<close> is a
  boolean or integer pattern, every subsequent call of \<^verbatim>\<open>step()\<close> (the call number
  \<open>n + 1\<close>, for every \<open>n\<close>) replaces the board with \<^verbatim>\<open>single_step\<close> of the previous
  board, increments the time counter by exactly 1 (from \<open>n\<close> to \<open>n + 1\<close>) and returns an
  image of the new board.
\<close>

theorem init_then_step:
  assumes "ndim2 P" "0 \<le> p"
  shows "\<exists>s0. init P p = Inr s0 \<and> time s0 = 0 \<and> data (board s0) = padded_array (nat p) P \<and>
     (dtype_of P \<noteq> np_float64 \<longrightarrow>
        (\<forall>n. \<exists>d. single_step (data (board (after_steps n s0))) = Inr d \<and>
           time (after_steps n s0) = int n \<and>
           step (after_steps n s0) =
             (Inr \<lparr>data = d\<rparr>,
              (after_steps n s0)\<lparr>board := (board (after_steps n s0))\<lparr>data := d\<rparr>,
                                 time := int n + 1\<rparr>)))"
proof -
  let ?s0 = "\<lparr>time = 0, board = \<lparr>data = padded_array (nat p) P\<rparr>\<rparr>"
  have i: "init P p = Inr ?s0"
    using assms by (simp add: init_def np_pad_padded del: np_pad.simps)
  have "\<exists>d. single_step (data (board (after_steps n ?s0))) = Inr d \<and>
        time (after_steps n ?s0) = int n \<and>
        step (after_steps n ?s0) =
          (Inr \<lparr>data = d\<rparr>,
           (after_steps n ?s0)\<lparr>board := (board (after_steps n ?s0))\<lparr>data := d\<rparr>, time := int n + 1\<rparr>)"
    if "dtype_of P \<noteq> np_float64" for n
  proof -
    have nf: "dtype_of (data (board ?s0)) \<noteq> np_float64"
      using that by (cases P) simp_all
    from after_steps_ok[OF nf, of n]
    have a: "dtype_of (data (board (after_steps n ?s0))) \<noteq> np_float64"
      "time (after_steps n ?s0) = int n"
      using nf by simp_all
    from single_step_dtype[OF a(1)] obtain d
      where "single_step (data (board (after_steps n ?s0))) = Inr d" by blast
    then show ?thesis
      using a(2) by (auto simp: step_ok)
  qed
  then show ?thesis
    using i by (intro exI[of _ ?s0]) simp
qed

theorem init_then_step_witness:
  "ndim2 (IntArr glider) \<and> (0::int) \<le> 1 \<and> dtype_of (IntArr glider) \<noteq> np_float64 \<and>
   init (IntArr glider) 1 =
     Inr \<lparr>time = 0, board = \<lparr>data = IntArr [[0, 0, 0, 0, 0], [0, 1, 0, 0, 0], [0, 0, 1, 1, 0], [0, 1, 1, 0, 0], [0, 0, 0, 0, 0]]\<rparr>\<rparr> \<and>
   step \<lparr>time = 0, board = \<lparr>data = IntArr [[0, 0, 0, 0, 0], [0, 1, 0, 0, 0], [0, 0, 1, 1, 0], [0, 1, 1, 0, 0], [0, 0, 0, 0, 0]]\<rparr>\<rparr> =
     (Inr \<lparr>data = IntArr [[0, 0, 0, 0, 0], [0, 0, 1, 0, 0], [0, 0, 0, 1, 0], [0, 1, 1, 1, 0], [0, 0, 0, 0, 0]]\<rparr>,
      \<lparr>time = 1, board = \<lparr>data = IntArr [[0, 0, 0, 0, 0], [0, 0, 1, 0, 0], [0, 0, 0, 1, 0], [0, 1, 1, 1, 0], [0, 0, 0, 0, 0]]\<rparr>\<rparr>)"
proof -
  let ?B = "IntArr [[0, 0, 0, 0, 0], [0, 1, 0, 0, 0], [0, 0, 1, 1, 0], [0, 1, 1, 0, 0], [0, 0, 0, 0, 0]]"
  let ?C = "IntArr [[0, 0, 0, 0, 0], [0, 0, 1, 0, 0], [0, 0, 0, 1, 0], [0, 1, 1, 1, 0], [0, 0, 0, 0, 0]]"
  have h: "ndim2 (IntArr glider)" "(0::int) \<le> 1"
    by code_simp+
  have nf: "dtype_of (IntArr glider) \<noteq> np_float64" by simp
  have pd: "padded_array (nat 1) (IntArr glider) = ?B" by code_simp
  have st: "single_step ?B = Inr ?C" by code_simp
  from init_then_step[OF h] nf obtain s0 where s0: "init (IntArr glider) 1 = Inr s0" "time s0 = 0"
    "data (board s0) = padded_array (nat 1) (IntArr glider)"
    "\<forall>n. \<exists>d. single_step (data (board (after_steps n s0))) = Inr d \<and>
        time (after_steps n s0) = int n \<and>
        step (after_steps n s0) =
          (Inr \<lparr>data = d\<rparr>,
           (after_steps n s0)\<lparr>board := (board (after_steps n s0))\<lparr>data := d\<rparr>, time := int n + 1\<rparr>)"
    by blast
  from s0(2,3) pd have s0_eq: "s0 = \<lparr>time = 0, board = \<lparr>data = ?B\<rparr>\<rparr>"
    by (cases s0, cases "board s0") simp
  from s0(4) obtain d where d: "single_step (data (board (after_steps 0 s0))) = Inr d"
    "step (after_steps 0 s0) =
          (Inr \<lparr>data = d\<rparr>,
           (after_steps 0 s0)\<lparr>board := (board (after_steps 0 s0))\<lparr>data := d\<rparr>, time := int 0 + 1\<rparr>)"
    by blast
  from d(1) st s0_eq have "d = ?C" by simp
  with d(2) s0_eq have "step \<lparr>time = 0, board = \<lparr>data = ?B\<rparr>\<rparr> = (Inr \<lparr>data = ?C\<rparr>, \<lparr>time = 1, board = \<lparr>data = ?C\<rparr>\<rparr>)"
    by simp
  then show ?thesis using h nf s0(1) s0_eq by simp
qed

section \<open>The step function leaves its argument alone\<close>

text \<open>
  Claim C8, amended. A call \<^verbatim>\<open>single_step(X)\<close> never writes into an array that existed
  before the call, so \<open>X\<close> is unchanged, whatever its dtype; and for every boolean or
  integer array \<open>X\<close> it raises no error and returns a newly allocated array holding the
  result of \<^verbatim>\<open>single_step\<close> at \<open>X\<close>.
\<close>

theorem single_step_store_pure:
  assumes "x < length h"
  shows "take (length h) (snd (single_step_store h x)) = h
    \<and> snd (single_step_store h x) ! x = h ! x
    \<and> (dtype_of (h ! x) \<noteq> np_float64 \<longrightarrow>
         (\<exists>r. fst (single_step_store h x) = Inr r \<and> length h \<le> r
             \<and> r < length (snd (single_step_store h x))
             \<and> single_step (h ! x) = Inr (snd (single_step_store h x) ! r)))"
  using assms
  by (cases "h ! x")
     (simp_all add: single_step_store_def new_array_def Let_def nth_append single_step_def)

theorem single_step_store_pure_witness:
  "(0::nat) < length [IntArr (pad2 0 1 glider)] \<and>
   dtype_of ([IntArr (pad2 0 1 glider)] ! 0) \<noteq> np_float64 \<and>
   take 1 (snd (single_step_store [IntArr (pad2 0 1 glider)] 0)) = [IntArr (pad2 0 1 glider)] \<and>
   (\<exists>r. fst (single_step_store [IntArr (pad2 0 1 glider)] 0) = Inr r \<and> 1 \<le> r \<and>
        single_step (IntArr (pad2 0 1 glider)) = Inr (snd (single_step_store [IntArr (pad2 0 1 glider)] 0) ! r))"
proof -
  let ?h = "[IntArr (pad2 0 1 glider)]"
  have h: "(0::nat) < length ?h" by simp
  have nf: "dtype_of (?h ! 0) \<noteq> np_float64" by simp
  from single_step_store_pure[OF h] nf show ?thesis by auto
qed

text \<open>
  Claim C8 as stated fails on a float64 array: it is a 2-D numeric array, and the call
  raises \<^verbatim>\<open>TypeError\<close>.
\<close>

theorem single_step_float_counterexample:
  "ndim2 (FloatArr [[1, 0], [0, 1]])
   \<and> single_step (FloatArr [[1, 0], [0, 1]]) = Inl TypeError
   \<and> fst (single_step_store [FloatArr [[1, 0], [0, 1]]] 0) = Inl TypeError"
  by (simp add: is_2d_def ncols_def single_step_FloatArr single_step_store_def new_array_def Let_def)

end
